theory Spec2Isabelle
  imports Complex_Main "HOL-Library.Sublist"
begin

section \<open>Rate limiter (apps/api/src/rate-limiter.ts)\<close>

subsection \<open>JavaScript values used by the limiter\<close>

text \<open>
  \<open>parseInt\<close> yields an integer or \<open>NaN\<close>. The counters and millisecond values of the
  limiter are whole numbers (\<open>Date.now()\<close>, \<open>parseInt\<close> results, literals), modelled as
  \<open>int\<close>; ratios are exact rationals.
\<close>

datatype jsnum = NaN | Num int

definition is_space :: "char \<Rightarrow> bool" where
  "is_space c = (c \<in> set [CHR '' '', CHR 0x09, CHR 0x0A, CHR 0x0B, CHR 0x0C, CHR 0x0D])"

definition digit_of :: "char \<Rightarrow> nat option" where
  "digit_of c =
     (let n = (of_char c :: nat) in
      if 48 \<le> n \<and> n \<le> 57 then Some (n - 48)
      else if 97 \<le> n \<and> n \<le> 122 then Some (n - 87)
      else if 65 \<le> n \<and> n \<le> 90 then Some (n - 55)
      else None)"

definition is_digit :: "nat \<Rightarrow> char \<Rightarrow> bool" where
  "is_digit radix c = (case digit_of c of Some d \<Rightarrow> d < radix | None \<Rightarrow> False)"

text \<open>
  \<open>parseInt(s)\<close> with no radix: leading white space is skipped, a sign is read, a
  \<open>0x\<close>/\<open>0X\<close> prefix selects radix 16, then the longest run of digits is converted; no
  digit at all gives \<open>NaN\<close>.
\<close>

definition parseInt :: "string \<Rightarrow> jsnum" where
  "parseInt s =
     (let s1 = dropWhile is_space s;
          neg = (take 1 s1 = ''-'');
          s2 = (if take 1 s1 = ''-'' \<or> take 1 s1 = ''+'' then drop 1 s1 else s1);
          hex = (take 2 s2 = ''0x'' \<or> take 2 s2 = ''0X'');
          radix = (if hex then 16 else 10);
          s3 = (if hex then drop 2 s2 else s2);
          ds = takeWhile (is_digit radix) s3;
          v = int (foldl (\<lambda>acc c. acc * radix + the (digit_of c)) 0 ds)
      in if ds = [] then NaN else Num (if neg then - v else v))"

text \<open>\<open>String(n)\<close> for a non-negative whole number, as used by the template literals.\<close>

definition digit_char :: "nat \<Rightarrow> char" where
  "digit_char d = char_of (d + 48)"

fun decimal :: "nat \<Rightarrow> string" where
  "decimal n =
     (if 10 \<le> n then decimal (n div 10) @ [digit_char (n mod 10)] else [digit_char n])"

text \<open>\<open>s.includes(sub)\<close>: \<open>sub\<close> occurs in \<open>s\<close> as a contiguous substring.\<close>

fun str_includes :: "string \<Rightarrow> string \<Rightarrow> bool" where
  "str_includes [] sub = (sub = [])"
| "str_includes (c # cs) sub = (prefix sub (c # cs) \<or> str_includes cs sub)"

subsection \<open>Configuration, responses, units of work\<close>

record RateLimiterConfig =
  maxRequestsPerWindow :: int
  windowDurationMs :: int
  requestDelayMs :: int
  maxRetries :: int

record XAPIRateLimit =
  limit :: jsnum
  remaining :: jsnum
  reset :: jsnum

text \<open>
  A \<open>Response\<close>: status line, headers (\<open>headers.get\<close> gives \<open>null\<close>, here \<open>None\<close>, for a
  missing header) and the outcome of \<open>response.json()\<close> (\<open>Inl\<close> the message of the
  error it rejects with, \<open>Inr\<close> the data).
\<close>

record Response =
  status :: nat
  statusText :: string
  headers :: "string \<Rightarrow> string option"
  json :: "string + string"

definition ok :: "Response \<Rightarrow> bool" where
  "ok r = (200 \<le> status r \<and> status r \<le> 299)"

text \<open>
  One invocation of a unit of work either throws (an error with the given message) or
  returns a response. A unit of work \<open>requestFn\<close> is effectful; it is modelled by the
  outcome of each of its invocations, numbered from 0.
\<close>

datatype fetch_outcome = Throws string | Returns Response

type_synonym requestFn = "nat \<Rightarrow> fetch_outcome"

text \<open>What the limiter does, in the order it does it.\<close>

datatype action =
    Enqueue nat      \<comment> \<open>\<open>requestQueue.push\<close> of the closure settling future number n\<close>
  | Dispatch nat     \<comment> \<open>\<open>requestQueue.shift()\<close> and call of that closure\<close>
  | Invoke nat       \<comment> \<open>\<open>requestFn()\<close> called, with the attempt number\<close>
  | Slowdown int     \<comment> \<open>\<open>delay(requestDelayMs * 2)\<close> after \<open>shouldBackoff\<close>\<close>
  | Backoff int      \<comment> \<open>\<open>delay(backoffTime)\<close> before a retry\<close>
  | Pace int         \<comment> \<open>\<open>delay(requestDelayMs)\<close> between two requests\<close>
  | WindowWait int   \<comment> \<open>\<open>delay(waitTime)\<close> until the window resets\<close>

subsection \<open>Header parsing and proactive slowdown\<close>

definition or_default :: "string option \<Rightarrow> string \<Rightarrow> string" where
  \<comment> \<open>\<open>x || d\<close> on a string or null: null and the empty string are falsy\<close>
  "or_default x d = (case x of None \<Rightarrow> d | Some s \<Rightarrow> if s = [] then d else s)"

definition parseRateLimitHeaders :: "Response \<Rightarrow> XAPIRateLimit" where
  "parseRateLimitHeaders response =
     \<lparr> limit = parseInt (or_default (headers response ''x-rate-limit-limit'') ''0''),
       remaining = parseInt (or_default (headers response ''x-rate-limit-remaining'') ''0''),
       reset = parseInt (or_default (headers response ''x-rate-limit-reset'') ''0'') \<rparr>"

text \<open>
  \<open>a / b < 0.15\<close> in JavaScript: any \<open>NaN\<close> operand makes the comparison false; a zero
  divisor gives an infinity (or \<open>NaN\<close> for \<open>0 / 0\<close>), which is below 0.15 only when negative.
\<close>

definition ratio_below_15_percent :: "jsnum \<Rightarrow> jsnum \<Rightarrow> bool" where
  "ratio_below_15_percent a b =
     (case (a, b) of
        (Num x, Num y) \<Rightarrow>
          (if y = 0 then x < 0 else (of_int x / of_int y :: rat) < 15 / 100)
      | _ \<Rightarrow> False)"

text \<open>
  \<open>shouldBackoff\<close>, returning its result together with the divisions it evaluated
  (dividend, divisor), so that the guard on the divisor can be stated.
\<close>

definition shouldBackoff :: "XAPIRateLimit \<Rightarrow> bool \<times> (jsnum \<times> jsnum) list" where
  "shouldBackoff rateLimit =
     (if limit rateLimit = Num 0 then (False, [])
      else (ratio_below_15_percent (remaining rateLimit) (limit rateLimit),
            [(remaining rateLimit, limit rateLimit)]))"

text \<open>
  \<open>logRateLimitStatus\<close>. When \<open>limit > 0\<close> (false for \<open>NaN\<close>) it formats
  \<open>new Date(reset * 1000).toISOString()\<close>, which throws a \<open>RangeError\<close> with the message
  \<open>Invalid time value\<close> when the time value is \<open>NaN\<close> or beyond 8.64e15 ms in absolute
  value. The result is the message of the error thrown, if any; the line written to the
  console is not modelled.
\<close>

definition invalid_date :: "jsnum \<Rightarrow> bool" where
  \<comment> \<open>\<open>new Date(seconds * 1000)\<close> is an invalid date\<close>
  "invalid_date seconds =
     (case seconds of NaN \<Rightarrow> True | Num r \<Rightarrow> \<bar>r * 1000\<bar> > 8640000000000000)"

definition logRateLimitStatus :: "XAPIRateLimit \<Rightarrow> string option" where
  "logRateLimitStatus rateLimit =
     (case limit rateLimit of
        NaN \<Rightarrow> None
      | Num l \<Rightarrow>
          if l > 0 \<and> invalid_date (reset rateLimit) then Some ''Invalid time value''
          else None)"

subsection \<open>Retry with exponential backoff\<close>

definition isRetryableError :: "string \<Rightarrow> bool" where
  "isRetryableError message =
     (if str_includes message ''Rate limited'' then True
      else if str_includes message ''HTTP 5'' then True
      else if str_includes message ''timeout'' then True
      else False)"

text \<open>
  The \<open>try\<close> block of \<open>makeRequestWithBackoff\<close> after \<open>requestFn()\<close> has produced its
  outcome: \<open>Inl\<close> is the message of the error thrown in the block, \<open>Inr\<close> the response
  returned.
\<close>

definition try_block :: "RateLimiterConfig \<Rightarrow> fetch_outcome \<Rightarrow> (string + Response) \<times> action list" where
  "try_block config outcome =
     (case outcome of
        Throws message \<Rightarrow> (Inl message, [])
      | Returns response \<Rightarrow>
          (let rateLimit = parseRateLimitHeaders response
           in case logRateLimitStatus rateLimit of
                Some message \<Rightarrow> (Inl message, [])
              | None \<Rightarrow>
                  (let waits = (if fst (shouldBackoff rateLimit)
                                then [Slowdown (requestDelayMs config * 2)] else [])
                   in if status response = 429 then (Inl ''Rate limited'', waits)
                      else if \<not> ok response
                      then (Inl (''HTTP '' @ decimal (status response) @ '': ''
                                 @ statusText response),
                            waits)
                      else (Inr response, waits))))"

function makeRequestWithBackoff ::
  "RateLimiterConfig \<Rightarrow> requestFn \<Rightarrow> nat \<Rightarrow> (string + Response) \<times> action list" where
  "makeRequestWithBackoff config requestFn attempt =
     (case try_block config (requestFn attempt) of
        (Inr response, waits) \<Rightarrow> (Inr response, Invoke attempt # waits)
      | (Inl error, waits) \<Rightarrow>
          if int attempt < maxRetries config \<and> isRetryableError error
          then (case makeRequestWithBackoff config requestFn (attempt + 1) of
                  (result, rest) \<Rightarrow>
                    (result,
                     Invoke attempt # waits @ [Backoff (min (1000 * 2 ^ attempt) 60000)] @ rest))
          else (Inl error, Invoke attempt # waits))"
  by pat_completeness auto
termination
  by (relation "measure (\<lambda>(config, requestFn, attempt). nat (maxRetries config - int attempt))")
     auto

subsection \<open>The request queue\<close>

text \<open>
  \<open>makeRequest\<close> returns a new promise and queues a closure that settles it. Promises
  live in a store indexed by allocation order; a queued closure is the index of its
  promise together with its unit of work.
\<close>

datatype settlement = Pending | Resolved string | Rejected string

record XAPIRateLimiter =
  requestQueue :: "(nat \<times> requestFn) list"
  requestCount :: nat   \<comment> \<open>initialised to 0; only ever incremented or reset to 0\<close>
  windowStart :: int
  isProcessing :: bool
  promises :: "settlement list"

definition initial :: "int \<Rightarrow> XAPIRateLimiter" where
  \<comment> \<open>the field initialisers; \<open>now\<close> is \<open>Date.now()\<close> at construction\<close>
  "initial now =
     \<lparr> requestQueue = [], requestCount = 0, windowStart = now, isProcessing = False,
       promises = [] \<rparr>"

text \<open>
  The queued closure: run the unit of work through the backoff wrapper, then
  \<open>resolve(await response.json())\<close>, or \<open>reject(error)\<close> for anything thrown.
\<close>

definition run_request :: "RateLimiterConfig \<Rightarrow> requestFn \<Rightarrow> settlement \<times> action list" where
  "run_request config requestFn =
     (case makeRequestWithBackoff config requestFn 0 of
        (Inl error, trace) \<Rightarrow> (Rejected error, trace)
      | (Inr response, trace) \<Rightarrow>
          (case json response of
             Inl error \<Rightarrow> (Rejected error, trace)
           | Inr data \<Rightarrow> (Resolved data, trace)))"

text \<open>
  One pass through the body of the \<open>while\<close> loop of \<open>processQueue\<close>, with \<open>now\<close> the
  value \<open>Date.now()\<close> returns at its top. The closure is awaited inside the pass: it
  touches no field of the limiter, only its own promise, so what other callers do
  while it is in flight is placed after the pass. A closure is in the queue once, so
  its promise is settled once. The pass ends at \<open>await request()\<close>.
\<close>

definition loop_body ::
  "RateLimiterConfig \<Rightarrow> int \<Rightarrow> XAPIRateLimiter \<Rightarrow> XAPIRateLimiter \<times> action list" where
  "loop_body config now s =
     (let s1 = (if now - windowStart s \<ge> windowDurationMs config
                then s\<lparr>requestCount := 0, windowStart := now\<rparr> else s)
      in if int (requestCount s1) < maxRequestsPerWindow config
         then (case requestQueue s1 of
                 [] \<Rightarrow> (s1, [])
               | (p, requestFn) # rest \<Rightarrow>
                   (case run_request config requestFn of
                      (outcome, trace) \<Rightarrow>
                        (s1\<lparr>requestQueue := rest,
                            requestCount := requestCount s1 + 1,
                            promises := (promises s1)[p := outcome]\<rparr>,
                         Dispatch p # trace)))
         else (s1, [WindowWait (windowDurationMs config - (now - windowStart s1))]))"

text \<open>
  When \<open>await request()\<close> returns, the loop tests the queue as it is then: if it is not
  empty the loop sleeps for the pacing delay; if it is empty the loop reaches its
  condition at once, which fails, and ends with \<open>isProcessing = false\<close>.
\<close>

definition after_request ::
  "RateLimiterConfig \<Rightarrow> XAPIRateLimiter \<Rightarrow> XAPIRateLimiter \<times> action list" where
  "after_request config s =
     (if requestQueue s \<noteq> [] then (s, [Pace (requestDelayMs config)])
      else (s\<lparr>isProcessing := False\<rparr>, []))"

text \<open>
  When a delay (pacing, or the wait for the window) is over, control reaches the loop
  condition again: another pass, or \<open>isProcessing = false\<close> and the loop ends.
\<close>

definition resume ::
  "RateLimiterConfig \<Rightarrow> int \<Rightarrow> XAPIRateLimiter \<Rightarrow> XAPIRateLimiter \<times> action list" where
  "resume config now s =
     (if requestQueue s \<noteq> [] then loop_body config now s
      else (s\<lparr>isProcessing := False\<rparr>, []))"

definition processQueue ::
  "RateLimiterConfig \<Rightarrow> int \<Rightarrow> XAPIRateLimiter \<Rightarrow> XAPIRateLimiter \<times> action list" where
  "processQueue config now s =
     (if isProcessing s \<or> requestQueue s = [] then (s, [])
      else resume config now (s\<lparr>isProcessing := True\<rparr>))"

definition makeRequest ::
  "RateLimiterConfig \<Rightarrow> requestFn \<Rightarrow> int \<Rightarrow> XAPIRateLimiter \<Rightarrow> XAPIRateLimiter \<times> action list" where
  "makeRequest config requestFn now s =
     (let p = length (promises s);
          s1 = s\<lparr>promises := promises s @ [Pending],
                 requestQueue := requestQueue s @ [(p, requestFn)]\<rparr>
      in case processQueue config now s1 of (s2, trace) \<Rightarrow> (s2, Enqueue p # trace))"

definition clearQueue :: "XAPIRateLimiter \<Rightarrow> XAPIRateLimiter" where
  "clearQueue s = s\<lparr>requestQueue := [], isProcessing := False\<rparr>"

text \<open>
  What can happen to a limiter: a caller enqueues a unit of work (\<open>now\<close> is the time
  read if that call starts the worker loop), a worker loop gets control back from
  \<open>await request()\<close>, a worker loop resumes after a delay, or a caller clears the queue. \<open>clearQueue\<close> resets \<open>isProcessing\<close> even while a loop is
  suspended, so a later \<open>makeRequest\<close> can start a second loop; a run is any sequence
  of events, which covers every interleaving of any number of loops.
\<close>

datatype event = MakeRequest requestFn int | RequestDone | Resume int | ClearQueue

fun step :: "RateLimiterConfig \<Rightarrow> event \<Rightarrow> XAPIRateLimiter \<Rightarrow> XAPIRateLimiter \<times> action list" where
  "step config (MakeRequest requestFn now) s = makeRequest config requestFn now s"
| "step config RequestDone s = after_request config s"
| "step config (Resume now) s = resume config now s"
| "step config ClearQueue s = (clearQueue s, [])"

fun run :: "RateLimiterConfig \<Rightarrow> event list \<Rightarrow> XAPIRateLimiter \<Rightarrow> XAPIRateLimiter \<times> action list" where
  "run config [] s = (s, [])"
| "run config (e # es) s =
     (case step config e s of
        (s1, t1) \<Rightarrow> (case run config es s1 of (s2, t2) \<Rightarrow> (s2, t1 @ t2)))"

definition is_clear :: "event \<Rightarrow> bool" where
  "is_clear e = (case e of ClearQueue \<Rightarrow> True | _ \<Rightarrow> False)"

definition queued :: "XAPIRateLimiter \<Rightarrow> nat list" where
  "queued s = map fst (requestQueue s)"

fun enqueued :: "action list \<Rightarrow> nat list" where
  "enqueued [] = []"
| "enqueued (Enqueue p # as) = p # enqueued as"
| "enqueued (_ # as) = enqueued as"

fun dispatched :: "action list \<Rightarrow> nat list" where
  "dispatched [] = []"
| "dispatched (Dispatch p # as) = p # dispatched as"
| "dispatched (_ # as) = dispatched as"

text \<open>\<open>precedes a b xs\<close>: \<open>b\<close> occurs in \<open>xs\<close> after the first occurrence of \<open>a\<close>.\<close>

definition precedes :: "'a \<Rightarrow> 'a \<Rightarrow> 'a list \<Rightarrow> bool" where
  "precedes a b xs = (b \<in> set (drop 1 (dropWhile (\<lambda>x. x \<noteq> a) xs)))"

section \<open>Cron handlers (apps/api/src/cron-handlers.ts)\<close>

subsection \<open>Daily sync\<close>

record account =
  account_id :: string   \<comment> \<open>the field \<open>id\<close>\<close>
  username :: string
  userId :: string

record syncProgress =
  totalAccounts :: nat
  processedAccounts :: nat
  successfulAccounts :: nat
  failedAccounts :: nat
  totalTweets :: nat
  errors :: "string list"

text \<open>
  The object handed to \<open>saveSyncResult\<close>: the progress counters with the run's id,
  the instant of \<open>new Date()\<close> and the duration; \<open>error\<close> is present only in the record
  of a failed run.
\<close>

record syncResult = syncProgress +
  sync_id :: string
  timestamp :: int
  duration :: int
  error :: "string option"

text \<open>
  The collaborators of the handler. \<open>getConnectedXAccounts\<close> is a placeholder for a
  database query in the source and \<open>syncAccountData\<close> goes to the network; each is given
  by its outcome, \<open>Inl\<close> the message of the error thrown. \<open>put\<close> tells whether the k-th
  \<open>SYNC_STATE.put\<close> of the invocation throws, \<open>clock\<close> is the k-th reading of the time.
\<close>

record CronEnvironment =
  getConnectedXAccounts :: "string + account list"
  syncAccountData :: "account \<Rightarrow> string + nat"
  put :: "nat \<Rightarrow> string option"
  clock :: "nat \<Rightarrow> int"
  ENVIRONMENT :: string

text \<open>
  What an invocation leaves behind: the error it throws, if any; every record handed to
  \<open>saveSyncResult\<close>; the entries written to the store; the analytics data points
  (blobs, doubles, indexes); the alerts sent.
\<close>

record invocation =
  thrown :: "string option"
  submitted :: "syncResult list"
  stored :: "(string \<times> syncResult) list"
  dataPoints :: "(string list \<times> int list \<times> nat list) list"
  alerts :: "(string \<times> syncResult) list"

definition decimal_int :: "int \<Rightarrow> string" where
  \<comment> \<open>a whole number inside a template literal\<close>
  "decimal_int i = (if 0 \<le> i then decimal (nat i) else CHR ''-'' # decimal (nat (- i)))"

text \<open>The body of the \<open>for\<close> loop over the connected accounts, and the loop.\<close>

definition sync_one :: "CronEnvironment \<Rightarrow> account \<Rightarrow> syncProgress \<Rightarrow> syncProgress" where
  "sync_one env account p =
     (case syncAccountData env account of
        Inr tweetsProcessed \<Rightarrow>
          p\<lparr>processedAccounts := processedAccounts p + 1,
            successfulAccounts := successfulAccounts p + 1,
            totalTweets := totalTweets p + tweetsProcessed\<rparr>
      | Inl message \<Rightarrow>
          p\<lparr>processedAccounts := processedAccounts p + 1,
            failedAccounts := failedAccounts p + 1,
            errors := errors p @ [username account @ '': '' @ message]\<rparr>)"

fun sync_accounts :: "CronEnvironment \<Rightarrow> account list \<Rightarrow> syncProgress \<Rightarrow> syncProgress" where
  "sync_accounts env [] p = p"
| "sync_accounts env (account # rest) p = sync_accounts env rest (sync_one env account p)"

definition saveSyncResult :: "CronEnvironment \<Rightarrow> nat \<Rightarrow> syncResult \<Rightarrow> string + (string \<times> syncResult)" where
  \<comment> \<open>the k-th write of the invocation: \<open>Inl\<close> the error thrown, \<open>Inr\<close> the entry written\<close>
  "saveSyncResult env k result =
     (case put env k of
        Some message \<Rightarrow> Inl message
      | None \<Rightarrow> Inr (''sync-result-'' @ sync_id result, result))"

text \<open>
  The \<open>catch\<close> block of \<open>handleDailyXSync\<close>, entered with the error's message after \<open>k\<close>
  writes and \<open>c\<close> clock readings, \<open>earlier\<close> being what the \<open>try\<close> block had handed to
  \<open>saveSyncResult\<close>.
\<close>

definition catch_block ::
  "CronEnvironment \<Rightarrow> string \<Rightarrow> int \<Rightarrow> string \<Rightarrow> nat \<Rightarrow> nat \<Rightarrow> syncResult list \<Rightarrow> invocation" where
  "catch_block env syncId startTime message k c earlier =
     (let errorResult =
            \<lparr> totalAccounts = 0, processedAccounts = 0, successfulAccounts = 0,
              failedAccounts = 0, totalTweets = 0, errors = [message],
              sync_id = syncId, timestamp = clock env c,
              duration = clock env (c + 1) - startTime, error = Some message \<rparr>
      in case saveSyncResult env k errorResult of
           Inl failure \<Rightarrow>
             \<lparr> thrown = Some failure, submitted = earlier @ [errorResult], stored = [],
               dataPoints = [], alerts = [] \<rparr>
         | Inr entry \<Rightarrow>
             \<lparr> thrown = Some message, submitted = earlier @ [errorResult], stored = [entry],
               dataPoints = [], alerts = [(''Daily sync completely failed'', errorResult)] \<rparr>)"

text \<open>
  \<open>failedAccounts > totalAccounts * 0.2\<close>. Both counters are whole numbers, and for whole
  numbers the double-precision product and the exact one compare alike with a whole
  number, so the test is made on exact rationals.
\<close>

definition too_many_failures :: "'a syncProgress_scheme \<Rightarrow> bool" where
  "too_many_failures p = ((of_nat (failedAccounts p) :: rat) > of_nat (totalAccounts p) * (2 / 10))"

definition handleDailyXSync :: "CronEnvironment \<Rightarrow> invocation" where
  "handleDailyXSync env =
     (let startTime = clock env 0;
          syncId = ''sync-'' @ decimal_int (clock env 1)
      in case getConnectedXAccounts env of
           Inl message \<Rightarrow> catch_block env syncId startTime message 0 2 []
         | Inr connectedAccounts \<Rightarrow>
             if length connectedAccounts = 0
             then \<lparr> thrown = None, submitted = [], stored = [], dataPoints = [], alerts = [] \<rparr>
             else
               (let syncProgress =
                      sync_accounts env connectedAccounts
                        \<lparr> totalAccounts = length connectedAccounts, processedAccounts = 0,
                          successfulAccounts = 0, failedAccounts = 0, totalTweets = 0,
                          errors = [] \<rparr>;
                    syncResult =
                      \<lparr> totalAccounts = totalAccounts syncProgress,
                        processedAccounts = processedAccounts syncProgress,
                        successfulAccounts = successfulAccounts syncProgress,
                        failedAccounts = failedAccounts syncProgress,
                        totalTweets = totalTweets syncProgress,
                        errors = errors syncProgress,
                        sync_id = syncId, timestamp = clock env 2,
                        duration = clock env 3 - startTime, error = None \<rparr>
                in case saveSyncResult env 0 syncResult of
                     Inl message \<Rightarrow> catch_block env syncId startTime message 1 4 [syncResult]
                   | Inr entry \<Rightarrow>
                       \<lparr> thrown = None, submitted = [syncResult], stored = [entry],
                         dataPoints =
                           [([syncId, ENVIRONMENT env],
                             [int (totalTweets syncProgress), duration syncResult],
                             [successfulAccounts syncProgress])],
                         alerts =
                           (if too_many_failures syncProgress
                            then [(''High failure rate in daily sync'', syncResult)]
                            else []) \<rparr>))"

subsection \<open>Freshness of the last successful sync\<close>

text \<open>
  \<open>checkLastSyncHealth\<close>. \<open>lastSyncData\<close> is the outcome of
  \<open>SYNC_STATE.get('last-successful-sync')\<close>: \<open>Inl\<close> when it throws, \<open>Inr None\<close> for
  \<open>null\<close>. \<open>getTime\<close> stands for \<open>new Date(JSON.parse(data).timestamp).getTime()\<close>:
  \<open>None\<close> when that throws, \<open>Some NaN\<close> for an invalid date, else the instant in
  milliseconds.
\<close>

definition checkLastSyncHealth ::
  "(string \<Rightarrow> jsnum option) \<Rightarrow> string + string option \<Rightarrow> int \<Rightarrow> bool" where
  "checkLastSyncHealth getTime lastSyncData now =
     (case lastSyncData of
        Inl message \<Rightarrow> False
      | Inr None \<Rightarrow> False
      | Inr (Some data) \<Rightarrow>
          if data = [] then False
          else (case getTime data of
                  None \<Rightarrow> False
                | Some NaN \<Rightarrow> False
                | Some (Num lastSyncTime) \<Rightarrow>
                    (let hoursSinceLastSync =
                           (of_int (now - lastSyncTime) :: rat) / (1000 * 60 * 60)
                     in hoursSinceLastSync < 25)))"

section \<open>Notions used to state the properties\<close>

text \<open>The invocations and retry waits of a trace, and the number of invocations.\<close>

definition retry_events :: "action list \<Rightarrow> action list" where
  "retry_events tr =
     filter (\<lambda>a. case a of Invoke _ \<Rightarrow> True | Backoff _ \<Rightarrow> True | _ \<Rightarrow> False) tr"


text \<open>
  A unit of work every invocation of which ends the \<open>try\<close> block with a retryable error:
  it throws one itself, or it returns a response that passes \<open>logRateLimitStatus\<close> and
  makes the block throw one (status 429, a 5xx status, a status text with \<open>timeout\<close>).
\<close>

definition always_retryable :: "RateLimiterConfig \<Rightarrow> requestFn \<Rightarrow> bool" where
  "always_retryable config requestFn =
     (\<forall>k. case fst (try_block config (requestFn k)) of
            Inl e \<Rightarrow> isRetryableError e
          | Inr _ \<Rightarrow> False)"


definition bare_response :: Response where
  "bare_response =
     \<lparr> status = 200, statusText = ''OK'', headers = (\<lambda>_. None), json = Inr ''{}'' \<rparr>"

definition zero_limit_response :: Response where
  "zero_limit_response =
     \<lparr> status = 200, statusText = ''OK'',
       headers = (\<lambda>h. if h = ''x-rate-limit-limit'' then Some ''0''
                       else if h = ''x-rate-limit-remaining'' then Some ''5'' else None),
       json = Inr ''{}'' \<rparr>"

text \<open>The accounts whose sync throws, and the line the handler records for one.\<close>

definition fails :: "CronEnvironment \<Rightarrow> account \<Rightarrow> bool" where
  "fails env a = isl (syncAccountData env a)"

definition error_line :: "CronEnvironment \<Rightarrow> account \<Rightarrow> string" where
  "error_line env a = username a @ '': '' @ projl (syncAccountData env a)"

definition high_failure_alert_raised :: "invocation \<Rightarrow> bool" where
  "high_failure_alert_raised i =
     (''High failure rate in daily sync'' \<in> set (map fst (alerts i)))"

text \<open>Example environments.\<close>

definition five_accounts :: "account list" where
  "five_accounts =
     [\<lparr> account_id = ''x_account_1'', username = ''ann'', userId = ''user_1'' \<rparr>,
      \<lparr> account_id = ''x_account_2'', username = ''bob'', userId = ''user_2'' \<rparr>,
      \<lparr> account_id = ''x_account_3'', username = ''cat'', userId = ''user_3'' \<rparr>,
      \<lparr> account_id = ''x_account_4'', username = ''dan'', userId = ''user_4'' \<rparr>,
      \<lparr> account_id = ''x_account_5'', username = ''eve'', userId = ''user_5'' \<rparr>]"

definition ten_accounts :: "account list" where
  "ten_accounts = five_accounts @
     [\<lparr> account_id = ''x_account_6'', username = ''fay'', userId = ''user_6'' \<rparr>,
      \<lparr> account_id = ''x_account_7'', username = ''gus'', userId = ''user_7'' \<rparr>,
      \<lparr> account_id = ''x_account_8'', username = ''hal'', userId = ''user_8'' \<rparr>,
      \<lparr> account_id = ''x_account_9'', username = ''ivy'', userId = ''user_9'' \<rparr>,
      \<lparr> account_id = ''x_account_10'', username = ''jim'', userId = ''user_10'' \<rparr>]"

definition bulkhead_env :: CronEnvironment where
  "bulkhead_env =
     \<lparr> getConnectedXAccounts = Inr five_accounts,
       syncAccountData =
         (\<lambda>a. if account_id a = ''x_account_2'' \<or> account_id a = ''x_account_4''
              then Inl ''HTTP 403: Forbidden'' else Inr 7),
       put = (\<lambda>_. None), clock = (\<lambda>k. 1000 + int k), ENVIRONMENT = ''test'' \<rparr>"

definition threshold_env :: "string list \<Rightarrow> CronEnvironment" where
  "threshold_env failing =
     \<lparr> getConnectedXAccounts = Inr ten_accounts,
       syncAccountData = (\<lambda>a. if username a \<in> set failing then Inl ''timeout'' else Inr 1),
       put = (\<lambda>_. None), clock = (\<lambda>k. 1000 + int k), ENVIRONMENT = ''test'' \<rparr>"

definition no_accounts_env :: CronEnvironment where
  "no_accounts_env =
     \<lparr> getConnectedXAccounts = Inr [], syncAccountData = (\<lambda>_. Inr 0),
       put = (\<lambda>_. None), clock = (\<lambda>k. 1000 + int k), ENVIRONMENT = ''test'' \<rparr>"

definition listing_fails_env :: CronEnvironment where
  "listing_fails_env =
     \<lparr> getConnectedXAccounts = Inl ''database unreachable'', syncAccountData = (\<lambda>_. Inr 0),
       put = (\<lambda>_. None), clock = (\<lambda>k. 1000 + int k), ENVIRONMENT = ''test'' \<rparr>"

definition store_down_env :: CronEnvironment where
  "store_down_env =
     \<lparr> getConnectedXAccounts = Inl ''database unreachable'', syncAccountData = (\<lambda>_. Inr 0),
       put = (\<lambda>_. Some ''KV unavailable''), clock = (\<lambda>k. 1000 + int k),
       ENVIRONMENT = ''test'' \<rparr>"

text \<open>The window's counter is within the configured limit.\<close>

definition within_limit :: "RateLimiterConfig \<Rightarrow> XAPIRateLimiter \<Rightarrow> bool" where
  "within_limit config s = (int (requestCount s) \<le> maxRequestsPerWindow config)"

text \<open>
  The queued closures are in allocation order and each one's promise exists and is
  still pending.
\<close>

definition queue_pending :: "XAPIRateLimiter \<Rightarrow> bool" where
  "queue_pending s =
     (sorted_wrt (<) (queued s)
      \<and> (\<forall>p \<in> set (queued s). p < length (promises s) \<and> promises s ! p = Pending))"

text \<open>
  A small limiter, a unit of work that succeeds, and a burst of three requests, the
  last two made while the first is in flight, followed by what the worker loop does.
  A response that is throttled and carries a limit with an unreadable reset time.
\<close>

definition small_config :: RateLimiterConfig where
  "small_config = \<lparr> maxRequestsPerWindow = 2, windowDurationMs = 1000,
                    requestDelayMs = 10, maxRetries = 3 \<rparr>"

definition ok_request :: requestFn where
  "ok_request = (\<lambda>_. Returns bare_response)"

definition burst :: "event list" where
  "burst = [MakeRequest ok_request 0, MakeRequest ok_request 1, MakeRequest ok_request 2,
            RequestDone, Resume 20, RequestDone, Resume 40, Resume 1005, RequestDone]"

definition throttled_bad_reset :: Response where
  "throttled_bad_reset =
     \<lparr> status = 429, statusText = ''Too Many Requests'',
       headers = (\<lambda>h. if h = ''x-rate-limit-limit'' then Some ''100''
                       else if h = ''x-rate-limit-remaining'' then Some ''0''
                       else if h = ''x-rate-limit-reset'' then Some ''soon'' else None),
       json = Inr ''{}'' \<rparr>"

section \<open>Properties\<close>

declare makeRequestWithBackoff.simps [simp del]

subsection \<open>Proactive slowdown\<close>

lemma parseInt_zero: "parseInt ''0'' = Num 0"
  by (simp add: parseInt_def is_space_def is_digit_def digit_of_def)

lemma limit_absent:
  "headers response ''x-rate-limit-limit'' = None \<Longrightarrow>
   limit (parseRateLimitHeaders response) = Num 0"
  by (simp add: parseRateLimitHeaders_def or_default_def parseInt_zero)

lemma shouldBackoff_divisor_nonzero:
  "(a, b) \<in> set (snd (shouldBackoff rateLimit)) \<Longrightarrow> b \<noteq> Num 0"
  by (auto simp: shouldBackoff_def split: if_splits)

text \<open>
  C10. When the \<open>x-rate-limit-limit\<close> header is absent, or the parsed limit is 0,
  \<open>shouldBackoff\<close> returns false and has evaluated no division, and the \<open>try\<close> block
  inserts no \<open>2 * requestDelayMs\<close> delay.
\<close>

theorem shouldBackoff_guarded:
  assumes "headers response ''x-rate-limit-limit'' = None
           \<or> limit (parseRateLimitHeaders response) = Num 0"
  shows "shouldBackoff (parseRateLimitHeaders response) = (False, [])
         \<and> (\<forall>d. Slowdown d \<notin> set (snd (try_block config (Returns response))))"
proof -
  from assms have z: "limit (parseRateLimitHeaders response) = Num 0"
    using limit_absent by blast
  then have sb: "shouldBackoff (parseRateLimitHeaders response) = (False, [])"
    by (simp add: shouldBackoff_def)
  then show ?thesis
    by (simp add: try_block_def Let_def split: option.splits)
qed

theorem shouldBackoff_guarded_witness:
  "headers bare_response ''x-rate-limit-limit'' = None
   \<and> shouldBackoff (parseRateLimitHeaders bare_response) = (False, [])
   \<and> limit (parseRateLimitHeaders zero_limit_response) = Num 0
   \<and> shouldBackoff (parseRateLimitHeaders zero_limit_response) = (False, [])"
proof -
  have h1: "headers bare_response ''x-rate-limit-limit'' = None"
    by (simp add: bare_response_def)
  have h2: "limit (parseRateLimitHeaders zero_limit_response) = Num 0"
    by (simp add: zero_limit_response_def parseRateLimitHeaders_def or_default_def parseInt_zero)
  from shouldBackoff_guarded [of bare_response] h1
       shouldBackoff_guarded [of zero_limit_response] h2
  show ?thesis by simp
qed

subsection \<open>Retry exhaustion\<close>


lemma retry_events_append [simp]: "retry_events (xs @ ys) = retry_events xs @ retry_events ys"
  by (simp add: retry_events_def)

lemma retry_events_Cons [simp]:
  "retry_events (Invoke n # xs) = Invoke n # retry_events xs"
  "retry_events (Backoff d # xs) = Backoff d # retry_events xs"
  "retry_events [] = []"
  by (simp_all add: retry_events_def)








text \<open>
  A throttled response whose reset header does not parse is not retried: logging its
  rate limit throws inside the \<open>try\<close> block before the status is looked at, and that
  error is not retryable. Such a unit of work is not among those of the theorem above.
\<close>

lemma throttled_bad_reset_throws:
  "try_block config (Returns throttled_bad_reset) = (Inl ''Invalid time value'', [])"
  by (simp add: try_block_def throttled_bad_reset_def parseRateLimitHeaders_def or_default_def
      parseInt_def is_space_def is_digit_def digit_of_def logRateLimitStatus_def
      invalid_date_def Let_def)

lemma invalid_time_not_retryable: "\<not> isRetryableError ''Invalid time value''"
  by (simp add: isRetryableError_def)

lemma throttled_bad_reset_not_retried:
  "run_request config (\<lambda>_. Returns throttled_bad_reset)
   = (Rejected ''Invalid time value'', [Invoke 0])"
  by (simp add: run_request_def makeRequestWithBackoff.simps [of _ _ 0]
      throttled_bad_reset_throws invalid_time_not_retryable)

lemma throttled_bad_reset_excluded:
  "\<not> always_retryable config (\<lambda>_. Returns throttled_bad_reset)"
  by (simp add: always_retryable_def throttled_bad_reset_throws invalid_time_not_retryable)

subsection \<open>Daily sync: the loop over the accounts\<close>

lemma sync_accounts_fields:
  "totalAccounts (sync_accounts env as p) = totalAccounts p
   \<and> processedAccounts (sync_accounts env as p) = processedAccounts p + length as
   \<and> successfulAccounts (sync_accounts env as p)
       = successfulAccounts p + length (filter (\<lambda>a. \<not> fails env a) as)
   \<and> failedAccounts (sync_accounts env as p) = failedAccounts p + length (filter (fails env) as)
   \<and> errors (sync_accounts env as p) = errors p @ map (error_line env) (filter (fails env) as)"
proof (induction as arbitrary: p)
  case Nil
  show ?case by simp
next
  case (Cons a as)
  show ?case
  proof (cases "syncAccountData env a")
    case (Inl m)
    then show ?thesis
      using Cons.IH [of "sync_one env a p"]
      by (simp add: sync_one_def fails_def error_line_def)
  next
    case (Inr n)
    then show ?thesis
      using Cons.IH [of "sync_one env a p"]
      by (simp add: sync_one_def fails_def error_line_def)
  qed
qed

lemma error_line_prefix:
  "list_all2 (\<lambda>a e. prefix (username a @ '': '') e) as (map (error_line env) as)"
  by (induction as) (simp_all add: error_line_def)


subsection \<open>Daily sync: the handler\<close>

lemma daily_sync_first:
  assumes "getConnectedXAccounts env = Inr accounts" and "accounts \<noteq> []"
  shows "submitted (handleDailyXSync env) \<noteq> []"
    and "syncProgress.truncate (hd (submitted (handleDailyXSync env)))
         = sync_accounts env accounts
             \<lparr> totalAccounts = length accounts, processedAccounts = 0,
               successfulAccounts = 0, failedAccounts = 0, totalTweets = 0, errors = [] \<rparr>"
  using assms
  by (simp_all add: handleDailyXSync_def Let_def saveSyncResult_def catch_block_def
      syncProgress.truncate_def split: option.splits)

lemma daily_sync_saved:
  assumes "getConnectedXAccounts env = Inr accounts" and "accounts \<noteq> []"
    and "put env 0 = None"
  shows "thrown (handleDailyXSync env) = None"
    and "stored (handleDailyXSync env)
         = [(''sync-result-'' @ sync_id (hd (submitted (handleDailyXSync env))),
             hd (submitted (handleDailyXSync env)))]"
    and "alerts (handleDailyXSync env)
         = (if too_many_failures (hd (submitted (handleDailyXSync env)))
            then [(''High failure rate in daily sync'', hd (submitted (handleDailyXSync env)))]
            else [])"
  using assms
  by (simp_all add: handleDailyXSync_def Let_def saveSyncResult_def too_many_failures_def)

lemma daily_sync_not_saved:
  assumes "getConnectedXAccounts env = Inr accounts" and "accounts \<noteq> []"
    and "put env 0 = Some e"
  shows "thrown (handleDailyXSync env) \<noteq> None"
  using assms
  by (simp add: handleDailyXSync_def Let_def saveSyncResult_def catch_block_def
      split: option.splits)

text \<open>
  C2 (as amended). When listing succeeds with a non-empty list, the record the handler
  builds and hands to \<open>saveSyncResult\<close> has \<open>totalAccounts\<close> the length of the list,
  \<open>processedAccounts = totalAccounts\<close>, \<open>successfulAccounts\<close> and \<open>failedAccounts\<close> the
  numbers of accounts whose sync returns and throws, and one entry in \<open>errors\<close> per
  failing account, in order, each beginning with that account's \<open>username\<close> followed by
  a colon and a space (not with its \<open>id\<close>); every account is processed whatever the
  others do. When the write succeeds that record is what is stored.
\<close>

theorem bulkhead_counts:
  assumes "getConnectedXAccounts env = Inr accounts" and "accounts \<noteq> []"
  shows "submitted (handleDailyXSync env) \<noteq> []
    \<and> (let r = hd (submitted (handleDailyXSync env));
            failing = filter (fails env) accounts
        in totalAccounts r = length accounts
         \<and> processedAccounts r = totalAccounts r
         \<and> successfulAccounts r = length (filter (\<lambda>a. \<not> fails env a) accounts)
         \<and> failedAccounts r = length failing
         \<and> length (errors r) = failedAccounts r
         \<and> errors r = map (error_line env) failing
         \<and> list_all2 (\<lambda>a e. prefix (username a @ '': '') e) failing (errors r)
         \<and> (put env 0 = None \<longrightarrow>
              stored (handleDailyXSync env) = [(''sync-result-'' @ sync_id r, r)]))"
proof -
  let ?r = "hd (submitted (handleDailyXSync env))"
  let ?p = "sync_accounts env accounts
             \<lparr> totalAccounts = length accounts, processedAccounts = 0,
               successfulAccounts = 0, failedAccounts = 0, totalTweets = 0, errors = [] \<rparr>"
  have t: "syncProgress.truncate ?r = ?p"
    by (rule daily_sync_first(2) [OF assms])
  have f: "totalAccounts ?r = totalAccounts ?p" "processedAccounts ?r = processedAccounts ?p"
    "successfulAccounts ?r = successfulAccounts ?p" "failedAccounts ?r = failedAccounts ?p"
    "errors ?r = errors ?p"
    unfolding t [symmetric] by (simp_all add: syncProgress.truncate_def)
  note c = sync_accounts_fields [of env accounts "\<lparr> totalAccounts = length accounts, processedAccounts = 0,
               successfulAccounts = 0, failedAccounts = 0, totalTweets = 0, errors = [] \<rparr>"]
  have 1: "totalAccounts ?r = length accounts" using f c by simp
  have 2: "processedAccounts ?r = length accounts" using f c by simp
  have 3: "successfulAccounts ?r = length (filter (\<lambda>a. \<not> fails env a) accounts)" using f c by simp
  have 4: "failedAccounts ?r = length (filter (fails env) accounts)" using f c by simp
  have 5: "errors ?r = map (error_line env) (filter (fails env) accounts)" using f c by simp
  have 6: "list_all2 (\<lambda>a e. prefix (username a @ '': '') e) (filter (fails env) accounts) (errors ?r)"
    unfolding 5 by (rule error_line_prefix)
  have 7: "put env 0 = None \<longrightarrow>
              stored (handleDailyXSync env) = [(''sync-result-'' @ sync_id ?r, ?r)]"
    using daily_sync_saved(2) [OF assms] by blast
  from daily_sync_first(1) [OF assms] 1 2 3 4 5 6 7 show ?thesis
    by (simp add: Let_def)
qed

lemma five_fail: "filter (fails bulkhead_env) five_accounts
  = [\<lparr> account_id = ''x_account_2'', username = ''bob'', userId = ''user_2'' \<rparr>,
     \<lparr> account_id = ''x_account_4'', username = ''dan'', userId = ''user_4'' \<rparr>]"
  by (simp add: five_accounts_def bulkhead_env_def fails_def)

lemma five_ok: "length (filter (\<lambda>a. \<not> fails bulkhead_env a) five_accounts) = 3"
  by (simp add: five_accounts_def bulkhead_env_def fails_def)

theorem bulkhead_counts_witness:
  "getConnectedXAccounts bulkhead_env = Inr five_accounts \<and> five_accounts \<noteq> []
   \<and> put bulkhead_env 0 = None
   \<and> totalAccounts (hd (submitted (handleDailyXSync bulkhead_env))) = 5
   \<and> processedAccounts (hd (submitted (handleDailyXSync bulkhead_env))) = 5
   \<and> successfulAccounts (hd (submitted (handleDailyXSync bulkhead_env))) = 3
   \<and> failedAccounts (hd (submitted (handleDailyXSync bulkhead_env))) = 2
   \<and> errors (hd (submitted (handleDailyXSync bulkhead_env)))
       = [''bob: HTTP 403: Forbidden'', ''dan: HTTP 403: Forbidden'']
   \<and> stored (handleDailyXSync bulkhead_env)
       = [(''sync-result-'' @ sync_id (hd (submitted (handleDailyXSync bulkhead_env))),
           hd (submitted (handleDailyXSync bulkhead_env)))]"
proof -
  have a: "getConnectedXAccounts bulkhead_env = Inr five_accounts"
    by (simp add: bulkhead_env_def)
  have b: "five_accounts \<noteq> []"
    by (simp add: five_accounts_def)
  have c: "put bulkhead_env 0 = None"
    by (simp add: bulkhead_env_def)
  have n: "length five_accounts = 5"
    by (simp add: five_accounts_def)
  have e: "error_line bulkhead_env
              \<lparr> account_id = ''x_account_2'', username = ''bob'', userId = ''user_2'' \<rparr>
            = ''bob: HTTP 403: Forbidden''"
    "error_line bulkhead_env
       \<lparr> account_id = ''x_account_4'', username = ''dan'', userId = ''user_4'' \<rparr>
     = ''dan: HTTP 403: Forbidden''"
    by (simp_all add: error_line_def bulkhead_env_def)
  from bulkhead_counts [OF a b] a b c show ?thesis
    by (simp add: Let_def n five_ok five_fail e)
qed

text \<open>
  C2 as stated fails: with five accounts of which the second and fourth fail, the two
  entries of \<open>errors\<close> begin with the user names, not with the account ids.
\<close>

theorem bulkhead_prefix_counterexample:
  "map account_id (filter (fails bulkhead_env) five_accounts) = [''x_account_2'', ''x_account_4'']
   \<and> errors (hd (submitted (handleDailyXSync bulkhead_env)))
       = [''bob: HTTP 403: Forbidden'', ''dan: HTTP 403: Forbidden'']
   \<and> \<not> list_all2 prefix (map account_id (filter (fails bulkhead_env) five_accounts))
          (errors (hd (submitted (handleDailyXSync bulkhead_env))))"
proof -
  have e: "errors (hd (submitted (handleDailyXSync bulkhead_env)))
       = [''bob: HTTP 403: Forbidden'', ''dan: HTTP 403: Forbidden'']"
    by (simp add: handleDailyXSync_def bulkhead_env_def five_accounts_def Let_def
        saveSyncResult_def sync_one_def)
  show ?thesis
    unfolding e five_fail by simp
qed

subsection \<open>Daily sync: no connected account\<close>

text \<open>
  C3 as stated fails: with an empty list of accounts the handler returns before it
  builds any record; nothing is handed to \<open>saveSyncResult\<close> and nothing is stored.
\<close>

theorem no_accounts_counterexample:
  "getConnectedXAccounts no_accounts_env = Inr []
   \<and> put no_accounts_env 0 = None
   \<and> submitted (handleDailyXSync no_accounts_env) = []
   \<and> stored (handleDailyXSync no_accounts_env) = []"
  by (simp add: no_accounts_env_def handleDailyXSync_def)

text \<open>
  C3 (as amended). When listing succeeds with the empty list, the invocation is not an
  error: it throws nothing and raises no alert. It writes no record to the store and
  no analytics data point.
\<close>

theorem no_accounts_skips:
  assumes "getConnectedXAccounts env = Inr []"
  shows "handleDailyXSync env
         = \<lparr> thrown = None, submitted = [], stored = [], dataPoints = [], alerts = [] \<rparr>"
  using assms by (simp add: handleDailyXSync_def)

theorem no_accounts_skips_witness:
  "getConnectedXAccounts no_accounts_env = Inr []
   \<and> thrown (handleDailyXSync no_accounts_env) = None
   \<and> alerts (handleDailyXSync no_accounts_env) = []
   \<and> dataPoints (handleDailyXSync no_accounts_env) = []"
proof -
  have a: "getConnectedXAccounts no_accounts_env = Inr []"
    by (simp add: no_accounts_env_def)
  from no_accounts_skips [OF a] a show ?thesis by simp
qed

subsection \<open>Daily sync: failure before the loop\<close>

text \<open>
  C6 as stated fails when the write of the failure record throws as well: nothing is
  stored, no alert is sent, and the error thrown is the store's, not the listing's.
\<close>

theorem catastrophic_failure_counterexample:
  "getConnectedXAccounts store_down_env = Inl ''database unreachable''
   \<and> stored (handleDailyXSync store_down_env) = []
   \<and> alerts (handleDailyXSync store_down_env) = []
   \<and> thrown (handleDailyXSync store_down_env) = Some ''KV unavailable''"
  by (simp add: store_down_env_def handleDailyXSync_def catch_block_def saveSyncResult_def)

text \<open>
  C6 (as amended). When listing the accounts throws and the write of the failure record
  succeeds, the stored record has all four account counters at 0 and \<open>errors\<close> equal to
  the one-element list of the failure message, exactly one alert is sent, the
  "completely failed" one, and the listing's error is thrown again.
\<close>

theorem catastrophic_failure:
  assumes "getConnectedXAccounts env = Inl message" and "put env 0 = None"
  shows "\<exists>r. stored (handleDailyXSync env) = [(''sync-result-'' @ sync_id r, r)]
            \<and> totalAccounts r = 0 \<and> processedAccounts r = 0
            \<and> successfulAccounts r = 0 \<and> failedAccounts r = 0
            \<and> errors r = [message]
            \<and> alerts (handleDailyXSync env) = [(''Daily sync completely failed'', r)]
            \<and> thrown (handleDailyXSync env) = Some message"
  using assms
  by (simp add: handleDailyXSync_def catch_block_def saveSyncResult_def Let_def)

theorem catastrophic_failure_witness:
  "getConnectedXAccounts listing_fails_env = Inl ''database unreachable''
   \<and> put listing_fails_env 0 = None
   \<and> map fst (alerts (handleDailyXSync listing_fails_env)) = [''Daily sync completely failed'']
   \<and> map (errors \<circ> snd) (stored (handleDailyXSync listing_fails_env)) = [[''database unreachable'']]
   \<and> thrown (handleDailyXSync listing_fails_env) = Some ''database unreachable''"
proof -
  have a: "getConnectedXAccounts listing_fails_env = Inl ''database unreachable''"
    by (simp add: listing_fails_env_def)
  have b: "put listing_fails_env 0 = None"
    by (simp add: listing_fails_env_def)
  from catastrophic_failure [OF a b] a b show ?thesis by auto
qed

subsection \<open>Daily sync: the alert threshold\<close>

text \<open>
  C7. For a run that completes (throws nothing) over a non-empty list of accounts, the
  high-failure-rate alert is raised exactly when \<open>failedAccounts / totalAccounts\<close> is
  strictly greater than 0.2.
\<close>

theorem high_failure_threshold:
  assumes "getConnectedXAccounts env = Inr accounts" and "accounts \<noteq> []"
    and "thrown (handleDailyXSync env) = None"
  shows "(let r = hd (submitted (handleDailyXSync env))
          in totalAccounts r = length accounts
           \<and> failedAccounts r = length (filter (fails env) accounts)
           \<and> 0 < totalAccounts r
           \<and> (high_failure_alert_raised (handleDailyXSync env)
                \<longleftrightarrow> (of_nat (failedAccounts r) :: rat) / of_nat (totalAccounts r) > 2 / 10))"
proof -
  let ?r = "hd (submitted (handleDailyXSync env))"
  let ?p0 = "\<lparr> totalAccounts = length accounts, processedAccounts = 0,
               successfulAccounts = 0, failedAccounts = 0, totalTweets = 0, errors = [] \<rparr>"
  have t: "syncProgress.truncate ?r = sync_accounts env accounts ?p0"
    by (rule daily_sync_first(2) [OF assms(1,2)])
  have f: "totalAccounts ?r = totalAccounts (sync_accounts env accounts ?p0)"
    "failedAccounts ?r = failedAccounts (sync_accounts env accounts ?p0)"
    unfolding t [symmetric] by (simp_all add: syncProgress.truncate_def)
  have 1: "totalAccounts ?r = length accounts"
    using f sync_accounts_fields [of env accounts ?p0] by simp
  have 2: "failedAccounts ?r = length (filter (fails env) accounts)"
    using f sync_accounts_fields [of env accounts ?p0] by simp
  have 3: "0 < totalAccounts ?r"
    using 1 assms(2) by simp
  have saved: "put env 0 = None"
    using daily_sync_not_saved [OF assms(1,2)] assms(3) by (cases "put env 0") auto
  have al: "high_failure_alert_raised (handleDailyXSync env) \<longleftrightarrow> too_many_failures ?r"
    unfolding high_failure_alert_raised_def daily_sync_saved(3) [OF assms(1,2) saved]
    by (cases "too_many_failures ?r") simp_all
  have "too_many_failures ?r
        \<longleftrightarrow> (of_nat (failedAccounts ?r) :: rat) / of_nat (totalAccounts ?r) > 2 / 10"
    unfolding too_many_failures_def using 3 by (simp add: field_simps)
  with al 1 2 3 show ?thesis by (simp add: Let_def)
qed

lemma ten_length: "length ten_accounts = 10"
  by (simp add: ten_accounts_def five_accounts_def)

theorem high_failure_threshold_witness:
  "thrown (handleDailyXSync (threshold_env [''ann'', ''bob'', ''cat''])) = None
   \<and> failedAccounts (hd (submitted (handleDailyXSync (threshold_env [''ann'', ''bob'', ''cat''])))) = 3
   \<and> totalAccounts (hd (submitted (handleDailyXSync (threshold_env [''ann'', ''bob'', ''cat''])))) = 10
   \<and> high_failure_alert_raised (handleDailyXSync (threshold_env [''ann'', ''bob'', ''cat'']))
   \<and> thrown (handleDailyXSync (threshold_env [''ann'', ''bob''])) = None
   \<and> failedAccounts (hd (submitted (handleDailyXSync (threshold_env [''ann'', ''bob''])))) = 2
   \<and> totalAccounts (hd (submitted (handleDailyXSync (threshold_env [''ann'', ''bob''])))) = 10
   \<and> \<not> high_failure_alert_raised (handleDailyXSync (threshold_env [''ann'', ''bob'']))"
proof -
  have a: "getConnectedXAccounts (threshold_env xs) = Inr ten_accounts" for xs
    by (simp add: threshold_env_def)
  have b: "ten_accounts \<noteq> []"
    by (simp add: ten_accounts_def)
  have c: "thrown (handleDailyXSync (threshold_env xs)) = None" for xs
    by (rule daily_sync_saved(1) [OF a b]) (simp add: threshold_env_def)
  have f3: "length (filter (fails (threshold_env [''ann'', ''bob'', ''cat''])) ten_accounts) = 3"
    by (simp add: ten_accounts_def five_accounts_def threshold_env_def fails_def)
  have f2: "length (filter (fails (threshold_env [''ann'', ''bob''])) ten_accounts) = 2"
    by (simp add: ten_accounts_def five_accounts_def threshold_env_def fails_def)
  from high_failure_threshold [OF a b c, of "[''ann'', ''bob'', ''cat'']"]
       high_failure_threshold [OF a b c, of "[''ann'', ''bob'']"] c
  show ?thesis
    by (simp add: Let_def ten_length f3 f2)
qed

subsection \<open>Freshness of the last successful sync\<close>

text \<open>
  C9. For a stored marker whose timestamp parses to an instant, the freshness check
  is true exactly when the marker's age at check time is strictly less than 25 hours.
\<close>

theorem last_sync_fresh:
  assumes "data \<noteq> []" and "getTime data = Some (Num lastSyncTime)"
  shows "checkLastSyncHealth getTime (Inr (Some data)) now
         \<longleftrightarrow> now - lastSyncTime < 25 * (60 * 60 * 1000)"
proof -
  have "((of_int (now - lastSyncTime) :: rat) / (1000 * 60 * 60) < 25)
        \<longleftrightarrow> (of_int (now - lastSyncTime) :: rat) < of_int (25 * (60 * 60 * 1000))"
    by (simp add: field_simps)
  also have "\<dots> \<longleftrightarrow> now - lastSyncTime < 25 * (60 * 60 * 1000)"
    by (simp only: of_int_less_iff)
  finally show ?thesis
    using assms by (simp add: checkLastSyncHealth_def Let_def)
qed

theorem last_sync_fresh_witness:
  "''{}'' \<noteq> []
   \<and> \<not> checkLastSyncHealth (\<lambda>_. Some (Num 0)) (Inr (Some ''{}'')) (26 * (60 * 60 * 1000))
   \<and> checkLastSyncHealth (\<lambda>_. Some (Num 0)) (Inr (Some ''{}'')) (24 * (60 * 60 * 1000))"
proof -
  have a: "''{}'' \<noteq> []" by simp
  have b: "(\<lambda>_::string. Some (Num 0)) ''{}'' = Some (Num 0)" by simp
  from last_sync_fresh [OF a b, of "26 * (60 * 60 * 1000)"]
       last_sync_fresh [OF a b, of "24 * (60 * 60 * 1000)"]
  show ?thesis by simp
qed

subsection \<open>The window counter\<close>

lemma loop_body_within_limit:
  "within_limit config s \<Longrightarrow> within_limit config (fst (loop_body config now s))"
  by (auto simp: within_limit_def loop_body_def Let_def split: list.splits prod.splits)

lemma resume_within_limit:
  "within_limit config s \<Longrightarrow> within_limit config (fst (resume config now s))"
  using loop_body_within_limit [of config s now]
  by (simp add: resume_def) (simp add: within_limit_def)

lemma processQueue_within_limit:
  "within_limit config s \<Longrightarrow> within_limit config (fst (processQueue config now s))"
  using resume_within_limit [of config "s\<lparr>isProcessing := True\<rparr>" now]
  by (simp add: processQueue_def) (simp add: within_limit_def)

lemma fst_makeRequest:
  "fst (makeRequest config requestFn now s)
   = fst (processQueue config now
            (s\<lparr>promises := promises s @ [Pending],
               requestQueue := requestQueue s @ [(length (promises s), requestFn)]\<rparr>))"
  by (simp add: makeRequest_def Let_def split: prod.splits)

lemma fst_run_Cons:
  "fst (run config (e # es) s) = fst (run config es (fst (step config e s)))"
  by (simp split: prod.splits)

lemma makeRequest_within_limit:
  "within_limit config s \<Longrightarrow> within_limit config (fst (makeRequest config requestFn now s))"
  unfolding fst_makeRequest
  by (rule processQueue_within_limit) (simp add: within_limit_def)

lemma after_request_within_limit:
  "within_limit config s \<Longrightarrow> within_limit config (fst (after_request config s))"
  by (simp add: after_request_def within_limit_def)

lemma step_within_limit:
  "within_limit config s \<Longrightarrow> within_limit config (fst (step config e s))"
  by (cases e)
     (simp_all add: makeRequest_within_limit resume_within_limit after_request_within_limit,
      simp add: clearQueue_def within_limit_def)

lemma run_within_limit:
  "within_limit config s \<Longrightarrow> within_limit config (fst (run config es s))"
proof (induction es arbitrary: s)
  case Nil
  then show ?case by simp
next
  case (Cons e es)
  from Cons.prems have "within_limit config (fst (step config e s))"
    by (rule step_within_limit)
  then have "within_limit config (fst (run config es (fst (step config e s))))"
    by (rule Cons.IH)
  then show ?case
    by (simp only: fst_run_Cons)
qed

lemma loop_body_window:
  "windowStart (fst (loop_body config now s))
     = (if windowDurationMs config \<le> now - windowStart s then now else windowStart s)
   \<and> requestCount (fst (loop_body config now s))
     = (let base = (if windowDurationMs config \<le> now - windowStart s then 0
                    else requestCount s)
        in if int base < maxRequestsPerWindow config \<and> requestQueue s \<noteq> []
           then base + 1 else base)"
  by (auto simp: loop_body_def Let_def split: list.splits prod.splits)

subsection \<open>Order of dispatch\<close>

lemma enqueued_append [simp]: "enqueued (xs @ ys) = enqueued xs @ enqueued ys"
  by (induction xs rule: enqueued.induct) simp_all

lemma dispatched_append [simp]: "dispatched (xs @ ys) = dispatched xs @ dispatched ys"
  by (induction xs rule: dispatched.induct) simp_all

lemma enqueued_mem: "Enqueue p \<in> set tr \<longleftrightarrow> p \<in> set (enqueued tr)"
  by (induction tr rule: enqueued.induct) auto

lemma dispatched_mem: "Dispatch p \<in> set tr \<longleftrightarrow> p \<in> set (dispatched tr)"
  by (induction tr rule: dispatched.induct) auto

lemma try_block_quiet:
  "enqueued (snd (try_block config out)) = [] \<and> dispatched (snd (try_block config out)) = []"
  by (simp add: try_block_def Let_def split: fetch_outcome.splits option.splits)

lemma backoff_quiet:
  "enqueued (snd (makeRequestWithBackoff config requestFn attempt)) = []
   \<and> dispatched (snd (makeRequestWithBackoff config requestFn attempt)) = []"
proof (induction config requestFn attempt rule: makeRequestWithBackoff.induct)
  case (1 config requestFn attempt)
  obtain r w where tb: "try_block config (requestFn attempt) = (r, w)"
    by (cases "try_block config (requestFn attempt)")
  have w: "enqueued w = []" "dispatched w = []"
    using try_block_quiet [of config "requestFn attempt"] tb by simp_all
  show ?case
  proof (cases r)
    case (Inr response)
    then show ?thesis
      by (subst (1 2) makeRequestWithBackoff.simps) (simp add: tb w)
  next
    case (Inl e)
    show ?thesis
    proof (cases "int attempt < maxRetries config \<and> isRetryableError e")
      case True
      obtain r' rest where rec: "makeRequestWithBackoff config requestFn (attempt + 1) = (r', rest)"
        by (cases "makeRequestWithBackoff config requestFn (attempt + 1)")
      from "1.IH" [OF tb [symmetric] Inl True] rec
      have "enqueued rest = []" "dispatched rest = []" by simp_all
      then show ?thesis
        using True rec
        by (subst (1 2) makeRequestWithBackoff.simps) (simp add: tb Inl w)
    next
      case False
      then show ?thesis
        by (subst (1 2) makeRequestWithBackoff.simps) (auto simp add: tb Inl w)
    qed
  qed
qed

lemma run_request_quiet:
  "enqueued (snd (run_request config requestFn)) = []
   \<and> dispatched (snd (run_request config requestFn)) = []"
  using backoff_quiet [of config requestFn 0]
  by (auto simp add: run_request_def split: prod.splits sum.splits)

text \<open>What a pass of the loop does to the queue and the store of promises.\<close>

lemma loop_body_queue:
  assumes "loop_body config now s = (s', tr)"
  shows "dispatched tr @ queued s' = queued s \<and> enqueued tr = []
         \<and> length (promises s') = length (promises s)
         \<and> (\<forall>p. p \<notin> set (dispatched tr) \<longrightarrow> promises s' ! p = promises s ! p)"
proof -
  define s1 where "s1 = (if now - windowStart s \<ge> windowDurationMs config
                         then s\<lparr>requestCount := 0, windowStart := now\<rparr> else s)"
  have q1: "requestQueue s1 = requestQueue s" "promises s1 = promises s"
    by (simp_all add: s1_def)
  have lb: "loop_body config now s =
     (if int (requestCount s1) < maxRequestsPerWindow config
      then (case requestQueue s1 of
              [] \<Rightarrow> (s1, [])
            | (p, requestFn) # rest \<Rightarrow>
                (case run_request config requestFn of
                   (outcome, trace) \<Rightarrow>
                     (s1\<lparr>requestQueue := rest,
                         requestCount := requestCount s1 + 1,
                         promises := (promises s1)[p := outcome]\<rparr>,
                      Dispatch p # trace)))
      else (s1, [WindowWait (windowDurationMs config - (now - windowStart s1))]))"
    unfolding loop_body_def s1_def Let_def ..
  show ?thesis
  proof (cases "int (requestCount s1) < maxRequestsPerWindow config")
    case False
    with assms lb have "s' = s1"
      "tr = [WindowWait (windowDurationMs config - (now - windowStart s1))]"
      by auto
    then show ?thesis
      by (simp add: queued_def q1)
  next
    case True
    show ?thesis
    proof (cases "requestQueue s")
      case Nil
      with True assms lb q1 have "s' = s1" "tr = []"
        by auto
      then show ?thesis using Nil by (simp add: queued_def q1)
    next
      case (Cons item rest)
      obtain p f where item: "item = (p, f)" by (cases item)
      obtain out t where rr: "run_request config f = (out, t)"
        by (cases "run_request config f")
      have t: "enqueued t = []" "dispatched t = []"
        using run_request_quiet [of config f] rr by simp_all
      from True assms lb q1 Cons item rr
      have s': "s' = s1\<lparr>requestQueue := rest, requestCount := requestCount s1 + 1,
                         promises := (promises s1)[p := out]\<rparr>"
        and tr: "tr = Dispatch p # t"
        by auto
      show ?thesis
        unfolding s' tr using Cons item t by (simp add: queued_def q1)
    qed
  qed
qed

lemma resume_queue:
  assumes "resume config now s = (s', tr)"
  shows "dispatched tr @ queued s' = queued s \<and> enqueued tr = []
         \<and> length (promises s') = length (promises s)
         \<and> (\<forall>p. p \<notin> set (dispatched tr) \<longrightarrow> promises s' ! p = promises s ! p)"
proof (cases "requestQueue s \<noteq> []")
  case True
  with assms have "loop_body config now s = (s', tr)" by (simp add: resume_def)
  then show ?thesis by (rule loop_body_queue)
next
  case False
  with assms have "s' = s\<lparr>isProcessing := False\<rparr>" "tr = []" by (simp_all add: resume_def)
  then show ?thesis by (simp add: queued_def)
qed

lemma processQueue_queue:
  assumes "processQueue config now s = (s', tr)"
  shows "dispatched tr @ queued s' = queued s \<and> enqueued tr = []
         \<and> length (promises s') = length (promises s)
         \<and> (\<forall>p. p \<notin> set (dispatched tr) \<longrightarrow> promises s' ! p = promises s ! p)"
proof (cases "isProcessing s \<or> requestQueue s = []")
  case True
  with assms have "s' = s" "tr = []" by (simp_all add: processQueue_def)
  then show ?thesis by simp
next
  case False
  with assms have "resume config now (s\<lparr>isProcessing := True\<rparr>) = (s', tr)"
    by (simp add: processQueue_def)
  from resume_queue [OF this] show ?thesis by (simp add: queued_def)
qed

lemma makeRequest_queue:
  assumes "makeRequest config requestFn now s = (s', tr)"
  shows "dispatched tr @ queued s' = queued s @ enqueued tr
         \<and> enqueued tr = [length (promises s)]
         \<and> length (promises s') = length (promises s) + 1
         \<and> (\<forall>p. p \<notin> set (dispatched tr) \<longrightarrow> p < length (promises s) \<longrightarrow>
                  promises s' ! p = promises s ! p)
         \<and> (length (promises s) \<notin> set (dispatched tr) \<longrightarrow>
                  promises s' ! length (promises s) = Pending)"
proof -
  let ?s1 = "s\<lparr>promises := promises s @ [Pending],
               requestQueue := requestQueue s @ [(length (promises s), requestFn)]\<rparr>"
  obtain t where pq: "processQueue config now ?s1 = (s', t)"
    and tr: "tr = Enqueue (length (promises s)) # t"
    using assms by (auto simp: makeRequest_def Let_def split: prod.splits)
  from processQueue_queue [OF pq] show ?thesis
    unfolding tr by (simp add: queued_def nth_append)
qed

text \<open>One event.\<close>

lemma step_queue:
  assumes "step config e s = (s', tr)"
  shows "subseq (dispatched tr @ queued s') (queued s @ enqueued tr)
         \<and> (\<not> is_clear e \<longrightarrow> dispatched tr @ queued s' = queued s @ enqueued tr)
         \<and> enqueued tr = [length (promises s) ..< length (promises s')]
         \<and> length (promises s) \<le> length (promises s')
         \<and> (\<forall>p. p \<notin> set (dispatched tr) \<longrightarrow> p < length (promises s) \<longrightarrow>
                  promises s' ! p = promises s ! p)
         \<and> (\<forall>p. p \<notin> set (dispatched tr) \<longrightarrow> length (promises s) \<le> p \<longrightarrow>
                  p < length (promises s') \<longrightarrow> promises s' ! p = Pending)"
proof (cases e)
  case (MakeRequest f now)
  with assms have "makeRequest config f now s = (s', tr)" by simp
  note m = makeRequest_queue [OF this]
  have "promises s' ! p = Pending"
    if "p \<notin> set (dispatched tr)" "length (promises s) \<le> p" "p < length (promises s')" for p
  proof -
    from that m have "p = length (promises s)" by simp
    with that m show ?thesis by simp
  qed
  with m show ?thesis
    by (simp add: MakeRequest is_clear_def)
next
  case RequestDone
  with assms have "after_request config s = (s', tr)" by simp
  then have "queued s' = queued s" "promises s' = promises s"
    "dispatched tr = []" "enqueued tr = []"
    by (auto simp: after_request_def queued_def split: if_splits)
  then show ?thesis
    by (simp add: RequestDone is_clear_def)
next
  case (Resume now)
  with assms have "resume config now s = (s', tr)" by simp
  from resume_queue [OF this] show ?thesis
    by (simp add: Resume is_clear_def)
next
  case ClearQueue
  with assms have "s' = clearQueue s" "tr = []" by simp_all
  then show ?thesis
    by (simp add: ClearQueue clearQueue_def queued_def is_clear_def)
qed

lemma upt_append_le: "i \<le> j \<Longrightarrow> j \<le> k \<Longrightarrow> [i ..< j] @ [j ..< k] = [i ..< k]"
  by (metis le_Suc_ex upt_add_eq_append)

lemma run_queue:
  "run config es s = (s', tr) \<Longrightarrow>
   subseq (dispatched tr @ queued s') (queued s @ enqueued tr)
   \<and> (\<not> list_ex is_clear es \<longrightarrow> dispatched tr @ queued s' = queued s @ enqueued tr)
   \<and> enqueued tr = [length (promises s) ..< length (promises s')]
   \<and> length (promises s) \<le> length (promises s')"
proof (induction es arbitrary: s tr)
  case Nil
  then show ?case by simp
next
  case (Cons e es)
  obtain s1 t1 where st: "step config e s = (s1, t1)"
    by (cases "step config e s")
  obtain t2 where rn: "run config es s1 = (s', t2)" and tr: "tr = t1 @ t2"
    using Cons.prems st by (auto split: prod.splits)
  note a = step_queue [OF st]
  note b = Cons.IH [OF rn]
  have le1: "length (promises s) \<le> length (promises s1)"
    using a by simp
  have le2: "length (promises s1) \<le> length (promises s')"
    using b by simp
  have enq: "enqueued tr = [length (promises s) ..< length (promises s')]"
    unfolding tr using a b upt_append_le [OF le1 le2]
    by simp
  have a1: "subseq (dispatched t1 @ queued s1) (queued s @ enqueued t1)"
    using a by blast
  have b1: "subseq (dispatched t2 @ queued s') (queued s1 @ enqueued t2)"
    using b by blast
  have "subseq (dispatched t1 @ (dispatched t2 @ queued s'))
               (dispatched t1 @ (queued s1 @ enqueued t2))"
    by (rule list_emb_append_mono [OF _ b1]) simp
  moreover have "subseq ((dispatched t1 @ queued s1) @ enqueued t2)
                        ((queued s @ enqueued t1) @ enqueued t2)"
    by (rule list_emb_append_mono [OF a1]) simp
  ultimately have "subseq (dispatched t1 @ (dispatched t2 @ queued s'))
                          ((queued s @ enqueued t1) @ enqueued t2)"
    using subseq_order.order_trans by fastforce
  then have sub: "subseq (dispatched tr @ queued s') (queued s @ enqueued tr)"
    unfolding tr by simp
  have eq: "\<not> list_ex is_clear (e # es) \<longrightarrow> dispatched tr @ queued s' = queued s @ enqueued tr"
    unfolding tr using a b by simp
  from sub eq enq le1 le2 show ?case by simp
qed

lemma sorted_wrt_subseq:
  assumes "subseq xs ys" and "sorted_wrt P ys"
  shows "sorted_wrt P xs"
  using assms
proof (induction rule: list_emb.induct)
  case (list_emb_Nil ys)
  show ?case by simp
next
  case (list_emb_Cons xs ys y)
  then show ?case by simp
next
  case (list_emb_Cons2 x y xs ys)
  have "set xs \<subseteq> set ys"
  proof
    fix z assume "z \<in> set xs"
    with list_emb_set [OF list_emb_Cons2.hyps(2)] show "z \<in> set ys" by blast
  qed
  with list_emb_Cons2 show ?case by auto
qed

lemma dropWhile_first:
  "a \<notin> set us \<Longrightarrow> dropWhile (\<lambda>x. x \<noteq> a) (us @ a # vs) = a # vs"
  by (induction us) auto

lemma precedes_split:
  assumes "precedes a b xs"
  obtains us vs where "xs = us @ a # vs" and "b \<in> set vs"
proof -
  define d where "d = dropWhile (\<lambda>x. x \<noteq> a) xs"
  from assms have mem: "b \<in> set (drop 1 d)" by (simp add: precedes_def d_def)
  then have ne: "d \<noteq> []" by (cases d) simp_all
  have "\<not> hd d \<noteq> a"
    using hd_dropWhile [of "\<lambda>x. x \<noteq> a" xs] ne unfolding d_def by blast
  with ne have d: "d = a # tl d" by (cases d) simp_all
  have "xs = takeWhile (\<lambda>x. x \<noteq> a) xs @ d"
    unfolding d_def by simp
  then have "xs = takeWhile (\<lambda>x. x \<noteq> a) xs @ a # tl d"
    using d by simp
  moreover have "b \<in> set (tl d)" using mem by (cases d) simp_all
  ultimately show ?thesis using that by blast
qed

lemma precedes_first:
  "a \<notin> set us \<Longrightarrow> precedes a b (us @ a # vs) \<longleftrightarrow> b \<in> set vs"
  by (simp add: precedes_def dropWhile_first)

text \<open>In a trace whose dispatches come in increasing order, order follows the numbers.\<close>

lemma dispatch_order:
  assumes srt: "sorted_wrt (<) (dispatched tr)" and lt: "i < j"
  shows "\<not> precedes (Dispatch j) (Dispatch i) tr"
    and "Dispatch i \<in> set tr \<Longrightarrow> Dispatch j \<in> set tr \<Longrightarrow> precedes (Dispatch i) (Dispatch j) tr"
proof -
  show "\<not> precedes (Dispatch j) (Dispatch i) tr"
  proof
    assume "precedes (Dispatch j) (Dispatch i) tr"
    then obtain us vs where tr: "tr = us @ Dispatch j # vs" and "Dispatch i \<in> set vs"
      by (rule precedes_split)
    then have "i \<in> set (dispatched vs)" by (simp add: dispatched_mem)
    with srt have "j < i" unfolding tr by (simp add: sorted_wrt_append)
    with lt show False by simp
  qed
next
  assume i: "Dispatch i \<in> set tr" and j: "Dispatch j \<in> set tr"
  from i obtain us vs where tr: "tr = us @ Dispatch i # vs" and first: "Dispatch i \<notin> set us"
    using split_list_first [of "Dispatch i" tr] by blast
  have "Dispatch j \<notin> set us"
  proof
    assume "Dispatch j \<in> set us"
    then have "j \<in> set (dispatched us)" by (simp add: dispatched_mem)
    with srt have "j < i" unfolding tr by (simp add: sorted_wrt_append)
    with lt show False by simp
  qed
  with j lt have "Dispatch j \<in> set vs" unfolding tr by auto
  then show "precedes (Dispatch i) (Dispatch j) tr"
    unfolding tr by (simp add: precedes_first [OF first])
qed

lemma enqueue_order:
  assumes "sorted_wrt (<) (enqueued tr)" and "precedes (Enqueue i) (Enqueue j) tr"
  shows "i < j"
proof -
  from assms(2) obtain us vs where tr: "tr = us @ Enqueue i # vs" and "Enqueue j \<in> set vs"
    by (rule precedes_split)
  then have "j \<in> set (enqueued vs)" by (simp add: enqueued_mem)
  with assms(1) show ?thesis unfolding tr by (simp add: sorted_wrt_append)
qed

lemma run_initial:
  assumes "run config events (initial t0) = (s, tr)"
  shows "enqueued tr = [0 ..< length (promises s)]"
    and "subseq (dispatched tr @ queued s) [0 ..< length (promises s)]"
    and "\<not> list_ex is_clear events \<Longrightarrow> dispatched tr @ queued s = [0 ..< length (promises s)]"
proof -
  have q: "queued (initial t0) = []" "length (promises (initial t0)) = 0"
    by (simp_all add: initial_def queued_def)
  note r = run_queue [OF assms, unfolded q append_Nil]
  show e: "enqueued tr = [0 ..< length (promises s)]"
    using r by blast
  show "subseq (dispatched tr @ queued s) [0 ..< length (promises s)]"
    using r unfolding e by blast
  show "dispatched tr @ queued s = [0 ..< length (promises s)]"
    if "\<not> list_ex is_clear events"
    using r that unfolding e by blast
qed

text \<open>
  C8. In every run of a limiter from its initial state, if unit \<open>i\<close> is enqueued before
  unit \<open>j\<close>, then \<open>j\<close> is never dispatched before \<open>i\<close>; and when \<open>j\<close> is dispatched,
  \<open>i\<close> has been dispatched before it, provided \<open>i\<close> is dispatched at all, which is
  always the case when the queue was never cleared.
\<close>

theorem fifo_dispatch:
  assumes "precedes (Enqueue i) (Enqueue j) (snd (run config events (initial t0)))"
  shows "\<not> precedes (Dispatch j) (Dispatch i) (snd (run config events (initial t0)))
    \<and> (Dispatch j \<in> set (snd (run config events (initial t0))) \<longrightarrow>
         Dispatch i \<in> set (snd (run config events (initial t0)))
           \<or> \<not> list_ex is_clear events \<longrightarrow>
         precedes (Dispatch i) (Dispatch j) (snd (run config events (initial t0))))"
proof -
  obtain s tr where rn: "run config events (initial t0) = (s, tr)"
    by (cases "run config events (initial t0)")
  note r = run_initial [OF rn]
  have srt: "sorted_wrt (<) (dispatched tr @ queued s)"
    using sorted_wrt_subseq [OF r(2)] by simp
  then have srt_d: "sorted_wrt (<) (dispatched tr)"
    by (simp add: sorted_wrt_append)
  have lt: "i < j"
    using enqueue_order [of tr i j] assms r(1) by (simp add: rn)
  have "precedes (Dispatch i) (Dispatch j) tr"
    if j: "Dispatch j \<in> set tr" and alt: "Dispatch i \<in> set tr \<or> \<not> list_ex is_clear events"
  proof -
    have "Dispatch i \<in> set tr"
    proof (rule ccontr)
      assume ni: "Dispatch i \<notin> set tr"
      with alt have eq: "dispatched tr @ queued s = [0 ..< length (promises s)]"
        using r(3) by blast
      from j have jd: "j \<in> set (dispatched tr)" by (simp add: dispatched_mem)
      then have "j \<in> set [0 ..< length (promises s)]"
        unfolding eq [symmetric] by simp
      with lt have "i \<in> set (dispatched tr @ queued s)"
        unfolding eq by simp
      with ni have "i \<in> set (queued s)" by (simp add: dispatched_mem)
      with srt jd have "j < i" by (auto simp: sorted_wrt_append)
      with lt show False by simp
    qed
    with j show ?thesis using dispatch_order(2) [OF srt_d lt] by blast
  qed
  with dispatch_order(1) [OF srt_d lt] show ?thesis
    by (simp add: rn)
qed

theorem fifo_dispatch_witness:
  "precedes (Enqueue 1) (Enqueue 2) (snd (run small_config burst (initial 0)))
   \<and> Dispatch 2 \<in> set (snd (run small_config burst (initial 0)))
   \<and> precedes (Dispatch 1) (Dispatch 2) (snd (run small_config burst (initial 0)))
   \<and> \<not> precedes (Dispatch 2) (Dispatch 1) (snd (run small_config burst (initial 0)))"
proof -
  have h: "precedes (Enqueue 1) (Enqueue 2) (snd (run small_config burst (initial 0)))"
    by code_simp
  have d: "Dispatch 2 \<in> set (snd (run small_config burst (initial 0)))"
    by code_simp
  have c: "\<not> list_ex is_clear burst"
    by code_simp
  from fifo_dispatch [OF h] h d c show ?thesis by blast
qed

text \<open>
  C1. \<open>requestCount \<le> maxRequestsPerWindow\<close> is preserved by every step of the limiter
  (enqueueing, every pass of the worker loop, clearing the queue), hence by every run.
  A pass of the loop replaces the window (\<open>windowStart = now\<close>, count restarted from 0)
  exactly when \<open>now - windowStart \<ge> windowDurationMs\<close>, before it admits an item, and
  it increments the count, by one, only when the count is below the limit and the
  queue is not empty.
\<close>

theorem requestCount_within_limit:
  assumes "int (requestCount s) \<le> maxRequestsPerWindow config"
  shows "int (requestCount (fst (run config events s))) \<le> maxRequestsPerWindow config
    \<and> windowStart (fst (loop_body config now s))
        = (if windowDurationMs config \<le> now - windowStart s then now else windowStart s)
    \<and> requestCount (fst (loop_body config now s))
        = (let base = (if windowDurationMs config \<le> now - windowStart s then 0
                       else requestCount s)
           in if int base < maxRequestsPerWindow config \<and> requestQueue s \<noteq> []
              then base + 1 else base)"
  using run_within_limit [of config s events] assms loop_body_window [of config now s]
  by (simp add: within_limit_def)

theorem requestCount_within_limit_witness:
  "int (requestCount (initial 0)) \<le> maxRequestsPerWindow small_config
   \<and> requestCount (fst (run small_config (take 7 burst) (initial 0))) = 2
   \<and> int (requestCount (fst (run small_config (take 7 burst) (initial 0))))
       \<le> maxRequestsPerWindow small_config"
proof -
  have a: "int (requestCount (initial 0)) \<le> maxRequestsPerWindow small_config"
    by (simp add: initial_def small_config_def)
  have b: "requestCount (fst (run small_config (take 7 burst) (initial 0))) = 2"
    by code_simp
  from requestCount_within_limit [OF a, of "take 7 burst"] a b show ?thesis by blast
qed

subsection \<open>Clearing the queue\<close>

lemma step_queue_pending:
  assumes inv: "queue_pending s" and st: "step config e s = (s', tr)"
  shows "queue_pending s'"
proof -
  note a = step_queue [OF st]
  let ?n = "length (promises s)" and ?n' = "length (promises s')"
  have e: "enqueued tr = [?n ..< ?n']"
    using a by blast
  have "subseq (dispatched tr @ queued s') (queued s @ enqueued tr)"
    using a by blast
  then have sub: "subseq (dispatched tr @ queued s') (queued s @ [?n ..< ?n'])"
    unfolding e .
  have "sorted_wrt (<) (queued s @ [?n ..< ?n'])"
    using inv by (auto simp: queue_pending_def sorted_wrt_append)
  with sub have srt: "sorted_wrt (<) (dispatched tr @ queued s')"
    by (rule sorted_wrt_subseq)
  have mem: "set (dispatched tr @ queued s') \<subseteq> set (queued s) \<union> {?n ..< ?n'}"
  proof
    fix z assume "z \<in> set (dispatched tr @ queued s')"
    with list_emb_set [OF sub] show "z \<in> set (queued s) \<union> {?n ..< ?n'}"
      by (metis UnCI UnE set_append set_upt)
  qed
  have "p < ?n' \<and> promises s' ! p = Pending" if p: "p \<in> set (queued s')" for p
  proof -
    from srt p have nd: "p \<notin> set (dispatched tr)"
      by (auto simp: sorted_wrt_append)
    from mem p have "p \<in> set (queued s) \<or> (?n \<le> p \<and> p < ?n')" by auto
    then show ?thesis
    proof
      assume q: "p \<in> set (queued s)"
      with inv have "p < ?n" "promises s ! p = Pending"
        by (simp_all add: queue_pending_def)
      with a nd show ?thesis by auto
    next
      assume "?n \<le> p \<and> p < ?n'"
      with a nd show ?thesis by auto
    qed
  qed
  with srt show ?thesis
    by (simp add: queue_pending_def sorted_wrt_append)
qed

lemma run_queue_pending:
  "queue_pending s \<Longrightarrow> queue_pending (fst (run config es s))"
proof (induction es arbitrary: s)
  case Nil
  then show ?case by simp
next
  case (Cons e es)
  obtain s1 t1 where st: "step config e s = (s1, t1)"
    by (cases "step config e s")
  from step_queue_pending [OF Cons.prems st] have "queue_pending s1" .
  then have "queue_pending (fst (run config es s1))" by (rule Cons.IH)
  then show ?case by (simp only: fst_run_Cons st fst_conv)
qed

lemma step_untouched:
  assumes "p < length (promises s)" and "p \<notin> set (queued s)"
    and st: "step config e s = (s', tr)"
  shows "p < length (promises s') \<and> p \<notin> set (queued s') \<and> promises s' ! p = promises s ! p"
proof -
  note a = step_queue [OF st]
  have e: "enqueued tr = [length (promises s) ..< length (promises s')]"
    using a by blast
  have "subseq (dispatched tr @ queued s') (queued s @ enqueued tr)"
    using a by blast
  then have sub: "subseq (dispatched tr @ queued s')
                         (queued s @ [length (promises s) ..< length (promises s')])"
    unfolding e .
  have "p \<notin> set (dispatched tr @ queued s')"
  proof
    assume "p \<in> set (dispatched tr @ queued s')"
    with list_emb_set [OF sub]
    have "p \<in> set (queued s @ [length (promises s) ..< length (promises s')])" by metis
    with assms(1,2) show False by simp
  qed
  with a assms(1) show ?thesis by auto
qed

lemma run_untouched:
  "p < length (promises s) \<Longrightarrow> p \<notin> set (queued s) \<Longrightarrow>
   promises (fst (run config es s)) ! p = promises s ! p"
proof (induction es arbitrary: s)
  case Nil
  then show ?case by simp
next
  case (Cons e es)
  obtain s1 t1 where st: "step config e s = (s1, t1)"
    by (cases "step config e s")
  note u = step_untouched [OF Cons.prems st]
  from u have "promises (fst (run config es s1)) ! p = promises s1 ! p"
    using Cons.IH [of s1] by blast
  with u show ?case by (simp only: fst_run_Cons st fst_conv)
qed

text \<open>
  C5 (as amended). For every reachable state and every item still in the queue, that
  item's future is pending; \<open>clearQueue\<close> empties the queue and sets \<open>isProcessing\<close> to
  false, changing nothing else: it settles no future. The future of a dropped item
  is never settled afterwards, whatever happens to the limiter.
\<close>

theorem clearQueue_drops_pending:
  assumes "s = fst (run config history (initial t0))" and "p \<in> set (queued s)"
  shows "promises s ! p = Pending
    \<and> requestQueue (clearQueue s) = [] \<and> \<not> isProcessing (clearQueue s)
    \<and> promises (clearQueue s) = promises s
    \<and> requestCount (clearQueue s) = requestCount s
    \<and> windowStart (clearQueue s) = windowStart s
    \<and> (\<forall>later. promises (fst (run config later (clearQueue s))) ! p = Pending)"
proof -
  have "queue_pending (initial t0)"
    by (simp add: queue_pending_def initial_def queued_def)
  then have "queue_pending s"
    unfolding assms(1) by (rule run_queue_pending)
  with assms(2) have p: "p < length (promises s)" "promises s ! p = Pending"
    by (simp_all add: queue_pending_def)
  have "promises (fst (run config later (clearQueue s))) ! p = Pending" for later
    using run_untouched [of p "clearQueue s" config later] p
    by (simp add: clearQueue_def queued_def)
  with p show ?thesis
    by (simp add: clearQueue_def)
qed

theorem clearQueue_drops_pending_witness:
  "1 \<in> set (queued (fst (run small_config [MakeRequest ok_request 0, MakeRequest ok_request 1]
                            (initial 0))))
   \<and> promises (fst (run small_config [Resume 5, MakeRequest ok_request 9]
        (clearQueue (fst (run small_config [MakeRequest ok_request 0, MakeRequest ok_request 1]
                            (initial 0)))))) ! 1 = Pending"
proof -
  have a: "1 \<in> set (queued (fst (run small_config
                [MakeRequest ok_request 0, MakeRequest ok_request 1] (initial 0))))"
    by code_simp
  from clearQueue_drops_pending [OF refl a] a show ?thesis by blast
qed

text \<open>
  C5 as stated fails: a request enqueued while the worker loop is busy is pending in
  the queue; after \<open>clearQueue\<close> its future is still pending, not rejected.
\<close>

theorem clearQueue_counterexample:
  "queued (fst (run small_config [MakeRequest ok_request 0, MakeRequest ok_request 1]
                  (initial 0))) = [1]
   \<and> promises (fst (run small_config
                      [MakeRequest ok_request 0, MakeRequest ok_request 1, ClearQueue]
                      (initial 0))) ! 1 = Pending"
  by code_simp

end
